theory Spec2Isabelle
  imports Main
begin

section \<open>Python values, exceptions and results\<close>

text \<open>
  The embedding follows \<^verbatim>\<open>enhanced_csi.py\<close>. The two enumerations are datatypes.
  The constructor of \<^verbatim>\<open>JetsonVideoStream\<close> is dynamically typed: \<^verbatim>\<open>rotation\<close> and
  \<^verbatim>\<open>camera_mode\<close> may be any Python object, so they are values of \<open>pyval\<close>, and an
  enumeration member is one kind of value among others. Both enumerations derive from
  \<^verbatim>\<open>Enum\<close> (not \<^verbatim>\<open>IntEnum\<close>), so \<^verbatim>\<open>==\<close> against a member holds for that member only.
\<close>

datatype FrameRotation = ROTATE_NONE | ROTATE_90 | ROTATE_180

datatype JetsonCameraMode =
    IMX219_3264x2468_21_0
  | IMX219_3264x1848_28_1
  | IMX219_1920x1080_30_2
  | IMX219_1640x1232_30_3
  | IMX477_4032x3040_30_0
  | IMX477_1920x1080_60_1
  | IMX477_2560x1440_40_3

datatype pyval =
    PyNone
  | PyInt int
  | PyStr string
  | PyRotation FrameRotation
  | PyCameraMode JetsonCameraMode

text \<open>
  The exceptions the module raises or lets through. \<open>CameraFailedToStart\<close> carries
  \<^verbatim>\<open>cmd\<close>, \<^verbatim>\<open>backend\<close> and \<^verbatim>\<open>append\<close>; \<open>ValueError\<close> carries its message.
  \<open>AttributeError\<close> is what Python raises for a method call on \<^verbatim>\<open>None\<close> or for an
  attribute that was never assigned, \<open>IndexError\<close> what \<^verbatim>\<open>deque.pop\<close> raises on an
  empty deque.
\<close>

datatype exn =
    CameraFailedToStart string int string
  | CameraConnectionLost
  | ValueError string
  | AttributeError
  | IndexError

text \<open>
  A method call either returns a value or raises; in both cases the object may have been
  mutated before, so both carry the state after the call.
\<close>

datatype ('a, 's) result = Returns 'a 's | Raises exn 's

fun state_of :: "('a, 's) result \<Rightarrow> 's" where
  "state_of (Returns v s) = s"
| "state_of (Raises e s) = s"

fun raised :: "('a, 's) result \<Rightarrow> exn option" where
  "raised (Returns v s) = None"
| "raised (Raises e s) = Some e"

section \<open>String formatting\<close>

text \<open>\<^verbatim>\<open>%d\<close> and \<^verbatim>\<open>str.format\<close> on the values the constructor formats.\<close>

definition digit_char :: "nat \<Rightarrow> char" where
  "digit_char d = ''0123456789'' ! d"

fun str_nat :: "nat \<Rightarrow> string" where
  "str_nat n = (if n < 10 then [digit_char n] else str_nat (n div 10) @ [digit_char (n mod 10)])"

declare str_nat.simps [simp del]

definition str_int :: "int \<Rightarrow> string" where
  "str_int i = (if i < 0 then CHR ''-'' # str_nat (nat (- i)) else str_nat (nat i))"

fun rotation_name :: "FrameRotation \<Rightarrow> string" where
  "rotation_name ROTATE_NONE = ''ROTATE_NONE''"
| "rotation_name ROTATE_90 = ''ROTATE_90''"
| "rotation_name ROTATE_180 = ''ROTATE_180''"

fun mode_name :: "JetsonCameraMode \<Rightarrow> string" where
  "mode_name IMX219_3264x2468_21_0 = ''IMX219_3264x2468_21_0''"
| "mode_name IMX219_3264x1848_28_1 = ''IMX219_3264x1848_28_1''"
| "mode_name IMX219_1920x1080_30_2 = ''IMX219_1920x1080_30_2''"
| "mode_name IMX219_1640x1232_30_3 = ''IMX219_1640x1232_30_3''"
| "mode_name IMX477_4032x3040_30_0 = ''IMX477_4032x3040_30_0''"
| "mode_name IMX477_1920x1080_60_1 = ''IMX477_1920x1080_60_1''"
| "mode_name IMX477_2560x1440_40_3 = ''IMX477_2560x1440_40_3''"

fun py_str :: "pyval \<Rightarrow> string" where
  "py_str PyNone = ''None''"
| "py_str (PyInt i) = str_int i"
| "py_str (PyStr s) = s"
| "py_str (PyRotation r) = ''FrameRotation.'' @ rotation_name r"
| "py_str (PyCameraMode m) = ''JetsonCameraMode.'' @ mode_name m"

section \<open>The capture backend\<close>

text \<open>
  \<^verbatim>\<open>cv2.VideoCapture\<close> is an external collaborator, so its behaviour is a parameter of
  the model: a device is what its successive \<^verbatim>\<open>read()\<close> calls deliver (\<open>feed\<close>, indexed
  by the number of reads made so far) and whether it reports itself opened. \<open>released\<close>
  records \<^verbatim>\<open>release()\<close>. \<open>stale_reads\<close> is a ghost counter of the reads issued after
  the release; a released device delivers nothing.
\<close>

record 'f video_capture =
  is_opened :: bool
  feed :: "nat \<Rightarrow> bool \<times> 'f option"
  reads :: nat
  released :: bool
  stale_reads :: nat

definition isOpened :: "'f video_capture \<Rightarrow> bool" where
  "isOpened c = (is_opened c \<and> \<not> released c)"

definition capture_read :: "'f video_capture \<Rightarrow> (bool \<times> 'f option) \<times> 'f video_capture" where
  "capture_read c =
     (if released c then ((False, None), c\<lparr>stale_reads := Suc (stale_reads c)\<rparr>)
      else (feed c (reads c), c\<lparr>reads := Suc (reads c)\<rparr>))"

definition release :: "'f video_capture \<Rightarrow> 'f video_capture" where
  "release c = c\<lparr>released := True\<rparr>"

text \<open>
  What \<^verbatim>\<open>cv2.VideoCapture(cmd, backend)\<close> does: it raises \<^verbatim>\<open>RuntimeError\<close>, or it
  returns a device (opened or not).
\<close>

datatype 'f open_result = OpenRaisesRuntimeError | OpenReturns "'f video_capture"

definition CAP_GSTREAMER :: int where
  "CAP_GSTREAMER = 1800"

section \<open>The frame queue\<close>

text \<open>
  \<^verbatim>\<open>collections.deque(maxlen=n)\<close> as a list whose head is the left end.
  \<^verbatim>\<open>appendleft\<close> on a full deque discards from the right end; \<^verbatim>\<open>pop\<close> removes the
  right end and raises \<^verbatim>\<open>IndexError\<close> on an empty deque.
\<close>

definition appendleft :: "nat \<Rightarrow> 'a \<Rightarrow> 'a list \<Rightarrow> 'a list" where
  "appendleft maxlen x q = take maxlen (x # q)"

definition deque_pop :: "'a list \<Rightarrow> exn + ('a \<times> 'a list)" where
  "deque_pop q = (if q = [] then Inl IndexError else Inr (last q, butlast q))"

section \<open>The video stream object\<close>

text \<open>
  The capture thread runs \<^verbatim>\<open>_update\<close>. Its position is either at the test of
  \<^verbatim>\<open>self._stopped\<close> (line 133), or past that test and at \<^verbatim>\<open>self._stream.read()\<close>
  (line 136), or it has returned. A repeat timer is waiting for its next tick or has
  returned.
\<close>

datatype thread_pc = AtStoppedCheck | AtStreamRead | ThreadReturned

datatype timer_pc = TimerWaiting | TimerReturned

text \<open>
  The attributes of \<^verbatim>\<open>_BaseVideoStream\<close>, without the leading underscore.
  \<open>update_failure\<close> is \<open>None\<close> until \<^verbatim>\<open>start\<close> creates the event, and then holds
  whether the event is set. \<open>thread\<close> is \<open>None\<close> until \<^verbatim>\<open>start\<close> creates the thread.
  \<open>timers\<close> holds every \<^verbatim>\<open>RepeatTimer\<close> created so far, and \<open>fps_timer\<close> is the
  index of the one the attribute refers to.
\<close>

record 'f base_video_stream =
  cmd :: string
  backend :: int
  fps_timer :: "nat option"
  running :: bool
  frames_read :: int
  frames_displayed :: int
  last_frames_read :: int
  last_frames_displayed :: int
  stream :: "'f video_capture option"
  thread :: "thread_pc option"
  queue_depth :: nat
  frame_queue :: "'f list"
  stopped :: bool
  update_failure :: "bool option"
  timers :: "timer_pc list"

text \<open>The attributes \<^verbatim>\<open>JetsonVideoStream.__init__\<close> adds.\<close>

record 'f jetson_video_stream = "'f base_video_stream" +
  sensor_id :: int
  rotation :: pyval
  sensor_mode :: pyval
  display_width :: int
  display_height :: int
  mode :: int
  capture_width :: int
  capture_height :: int
  framerate :: int

subsection \<open>Construction\<close>

text \<open>Lines 250 to 258: the flip method of a rotation.\<close>

definition flip_of :: "pyval \<Rightarrow> exn + int" where
  "flip_of r =
     (if r = PyRotation ROTATE_NONE then Inr 0
      else if r = PyRotation ROTATE_90 then Inr 1
      else if r = PyRotation ROTATE_180 then Inr 2
      else Inl (ValueError (''Invalid input for rotation: '' @ py_str r)))"

text \<open>
  Lines 260 to 298: the sensor mode index, the capture width, the capture height and the
  frame rate of a camera mode.
\<close>

definition mode_of :: "pyval \<Rightarrow> exn + (int \<times> int \<times> int \<times> int)" where
  "mode_of m =
     (if m = PyCameraMode IMX219_3264x2468_21_0 then Inr (0, 3264, 2468, 21)
      else if m = PyCameraMode IMX219_3264x1848_28_1 then Inr (1, 3264, 1848, 28)
      else if m = PyCameraMode IMX219_1920x1080_30_2 then Inr (2, 1920, 1080, 30)
      else if m = PyCameraMode IMX219_1640x1232_30_3 then Inr (3, 1640, 1232, 30)
      else if m = PyCameraMode IMX477_4032x3040_30_0 then Inr (0, 4032, 3040, 30)
      else if m = PyCameraMode IMX477_1920x1080_60_1 then Inr (1, 1920, 1080, 60)
      else if m = PyCameraMode IMX477_2560x1440_40_3 then Inr (3, 2560, 1440, 40)
      else Inl (ValueError (''Invalid input for camera_mode: '' @ py_str m)))"

text \<open>Lines 300 to 313: the GStreamer pipeline.\<close>

definition pipeline :: "int \<Rightarrow> int \<Rightarrow> int \<Rightarrow> int \<Rightarrow> int \<Rightarrow> int \<Rightarrow> int \<Rightarrow> int \<Rightarrow> string" where
  "pipeline cam md cw ch fr flip dw dh =
     ''nvarguscamerasrc sensor-id='' @ str_int cam @ '' sensor-mode='' @ str_int md @ '' !''
     @ ''video/x-raw(memory:NVMM), ''
     @ ''width=(int)'' @ str_int cw @ '', height=(int)'' @ str_int ch @ '', ''
     @ ''format=(string)NV12, framerate=(fraction)'' @ str_int fr @ ''/1 ! ''
     @ ''nvvidconv flip-method='' @ str_int flip @ '' ! ''
     @ ''video/x-raw, width=(int)'' @ str_int dw @ '', height=(int)'' @ str_int dh
     @ '',format=(string)BGRx ! ''
     @ ''videoconvert ! ''
     @ ''video/x-raw, format=(string)BGR ! appsink ''
     @ ''wait-on-eos=false drop=true max-buffers=60''"

text \<open>\<^verbatim>\<open>_BaseVideoStream.__init__\<close>, lines 61 to 74.\<close>

definition BaseVideoStream_init :: "string \<Rightarrow> int \<Rightarrow> 'f base_video_stream" where
  "BaseVideoStream_init c b =
     \<lparr>cmd = c,
      backend = b,
      fps_timer = None,
      running = False,
      frames_read = 0,
      frames_displayed = 0,
      last_frames_read = 0,
      last_frames_displayed = 0,
      stream = None,
      thread = None,
      queue_depth = 2,
      frame_queue = [],
      stopped = False,
      update_failure = None,
      timers = []\<rparr>"

text \<open>
  \<^verbatim>\<open>JetsonVideoStream.__init__\<close>, lines 239 to 316: the two lookups in the order of the
  source (an invalid rotation is reported before an invalid camera mode), then the base
  constructor with the pipeline as \<^verbatim>\<open>cmd\<close>.
\<close>

definition JetsonVideoStream_init ::
  "int \<Rightarrow> pyval \<Rightarrow> pyval \<Rightarrow> int \<Rightarrow> int \<Rightarrow> exn + 'f jetson_video_stream" where
  "JetsonVideoStream_init cam rot camera_mode dw dh =
     (case flip_of rot of
        Inl e \<Rightarrow> Inl e
      | Inr flip \<Rightarrow>
          (case mode_of camera_mode of
             Inl e \<Rightarrow> Inl e
           | Inr (md, cw, ch, fr) \<Rightarrow>
               Inr (base_video_stream.extend
                      (BaseVideoStream_init (pipeline cam md cw ch fr flip dw dh) CAP_GSTREAMER)
                      (jetson_video_stream.fields cam rot camera_mode dw dh md cw ch fr))))"

subsection \<open>The capture thread\<close>

text \<open>
  Lines 140 and 141: a frame that was read is counted and pushed on the left end of the
  queue.
\<close>

definition push_frame ::
  "'f \<Rightarrow> ('f, 'm) base_video_stream_scheme \<Rightarrow> ('f, 'm) base_video_stream_scheme" where
  "push_frame f s =
     s\<lparr>frames_read := frames_read s + 1,
       frame_queue := appendleft (queue_depth s) f (frame_queue s)\<rparr>"

text \<open>
  One step of the thread that runs \<^verbatim>\<open>_update\<close> (lines 129 to 141). At the test of
  \<^verbatim>\<open>self._stopped\<close> the thread returns or moves on to the read. At the read it reads
  the device; a failed read sets the failure event and returns, a frame is pushed and the
  loop starts over. The two steps are separate because another thread can run between
  the test and the read. A thread that has returned, or was never created, does nothing.
\<close>

definition update_step ::
  "('f, 'm) base_video_stream_scheme \<Rightarrow> ('f, 'm) base_video_stream_scheme" where
  "update_step s =
     (case thread s of
        Some AtStoppedCheck \<Rightarrow>
          (if stopped s then s\<lparr>thread := Some ThreadReturned\<rparr>
           else s\<lparr>thread := Some AtStreamRead\<rparr>)
      | Some AtStreamRead \<Rightarrow>
          (case stream s of
             None \<Rightarrow> s\<lparr>thread := Some ThreadReturned\<rparr>
           | Some c \<Rightarrow>
               (case capture_read c of
                  ((grabbed, frame), c') \<Rightarrow>
                    (if grabbed = False \<or> frame = None
                     then s\<lparr>stream := Some c', update_failure := Some True,
                            thread := Some ThreadReturned\<rparr>
                     else (push_frame (the frame) (s\<lparr>stream := Some c'\<rparr>))
                            \<lparr>thread := Some AtStoppedCheck\<rparr>)))
      | Some ThreadReturned \<Rightarrow> s
      | None \<Rightarrow> s)"

text \<open>
  \<^verbatim>\<open>Thread.join()\<close> blocks the caller until the thread has returned; until then the
  thread takes its steps. A thread that never returns blocks the caller for ever, which
  is the value \<open>None\<close>.
\<close>

partial_function (option) join ::
  "('f, 'm) base_video_stream_scheme \<Rightarrow> ('f, 'm) base_video_stream_scheme option" where
  "join s =
     (case thread s of
        Some AtStoppedCheck \<Rightarrow> join (update_step s)
      | Some AtStreamRead \<Rightarrow> join (update_step s)
      | Some ThreadReturned \<Rightarrow> Some s
      | None \<Rightarrow> Some s)"

subsection \<open>The methods\<close>

text \<open>
  \<^verbatim>\<open>start\<close>, lines 76 to 101. The backend's constructor is the parameter
  \<open>VideoCapture\<close>. The device is assigned to \<^verbatim>\<open>self._stream\<close> before the checks, so
  it stays assigned when they raise. The frame of the first read is a local variable that
  is not used again. The model follows the capture thread \<^verbatim>\<open>self._thread\<close> refers
  to; a second \<^verbatim>\<open>start\<close> on the same object would leave the first thread running
  unreferenced, so the properties of runs are stated for a stream that is started once.
\<close>

definition start ::
  "(string \<Rightarrow> int \<Rightarrow> 'f open_result) \<Rightarrow> ('f, 'm) base_video_stream_scheme
     \<Rightarrow> (unit, ('f, 'm) base_video_stream_scheme) result" where
  "start VideoCapture s =
     (case VideoCapture (cmd s) (backend s) of
        OpenRaisesRuntimeError \<Rightarrow> Raises (CameraFailedToStart (cmd s) (backend s) []) s
      | OpenReturns c \<Rightarrow>
          (if \<not> isOpened c
           then Raises (CameraFailedToStart (cmd s) (backend s) ''Stream not open.'')
                  (s\<lparr>stream := Some c\<rparr>)
           else
             (case capture_read c of
                ((grabbed, frame), c') \<Rightarrow>
                  (if grabbed = False \<or> frame = None
                   then Raises (CameraFailedToStart (cmd s) (backend s) ''Failed to grab frame'')
                          (s\<lparr>stream := Some c'\<rparr>)
                   else Returns ()
                          (s\<lparr>stream := Some c', update_failure := Some False,
                             thread := Some AtStoppedCheck\<rparr>)))))"

text \<open>\<^verbatim>\<open>update_fps_stats\<close>, lines 117 to 122: what one tick of the timer runs.\<close>

definition update_fps_stats ::
  "('f, 'm) base_video_stream_scheme \<Rightarrow> ('f, 'm) base_video_stream_scheme" where
  "update_fps_stats s =
     s\<lparr>last_frames_read := frames_read s,
       last_frames_displayed := frames_displayed s,
       frames_read := 0,
       frames_displayed := 0\<rparr>"

text \<open>
  \<^verbatim>\<open>start_counting_fps\<close>, lines 124 to 127: a new \<^verbatim>\<open>RepeatTimer\<close> is created,
  assigned to \<^verbatim>\<open>self.fps_timer\<close> and started. A timer created before is still in
  \<open>timers\<close>.
\<close>

definition start_counting_fps ::
  "('f, 'm) base_video_stream_scheme \<Rightarrow> (unit, ('f, 'm) base_video_stream_scheme) result" where
  "start_counting_fps s =
     Returns () (s\<lparr>fps_timer := Some (length (timers s)),
                   timers := timers s @ [TimerWaiting]\<rparr>)"

text \<open>
  \<^verbatim>\<open>release_fps_stats\<close>, lines 166 to 168: \<^verbatim>\<open>cancel()\<close> and \<^verbatim>\<open>join()\<close> on
  \<^verbatim>\<open>self.fps_timer\<close>, which is \<^verbatim>\<open>None\<close> until \<^verbatim>\<open>start_counting_fps\<close> has run.
\<close>

definition release_fps_stats ::
  "('f, 'm) base_video_stream_scheme \<Rightarrow> (unit, ('f, 'm) base_video_stream_scheme) result" where
  "release_fps_stats s =
     (case fps_timer s of
        None \<Rightarrow> Raises AttributeError s
      | Some i \<Rightarrow> Returns () (s\<lparr>timers := (timers s)[i := TimerReturned]\<rparr>))"

text \<open>
  One tick of timer \<open>i\<close> (\<^verbatim>\<open>RepeatTimer.run\<close>, lines 54 to 57): a waiting timer runs
  its function, a timer that has returned does not.
\<close>

definition timer_tick ::
  "nat \<Rightarrow> ('f, 'm) base_video_stream_scheme \<Rightarrow> ('f, 'm) base_video_stream_scheme" where
  "timer_tick i s =
     (if i < length (timers s) \<and> timers s ! i = TimerWaiting then update_fps_stats s else s)"

text \<open>
  The consumer counts a displayed frame itself (\<^verbatim>\<open>app.py\<close>, line 62).
\<close>

definition count_displayed ::
  "('f, 'm) base_video_stream_scheme \<Rightarrow> ('f, 'm) base_video_stream_scheme" where
  "count_displayed s = s\<lparr>frames_displayed := frames_displayed s + 1\<rparr>"

text \<open>
  \<^verbatim>\<open>read\<close>, lines 143 to 157. One pass through the body of its loop tests the
  failure event first and raises when it is set; otherwise, when the queue holds a frame,
  the loop is left and the right end of the queue is popped and returned; otherwise the
  loop goes round again, which is the value \<open>None\<close> of a pass.
\<close>

definition read_pass ::
  "('f, 'm) base_video_stream_scheme
     \<Rightarrow> ('f, ('f, 'm) base_video_stream_scheme) result option" where
  "read_pass s =
     (case update_failure s of
        None \<Rightarrow> Some (Raises AttributeError s)
      | Some is_set \<Rightarrow>
          (if is_set then Some (Raises CameraConnectionLost s)
           else if length (frame_queue s) > 0
           then (case deque_pop (frame_queue s) of
                   Inl e \<Rightarrow> Some (Raises e s)
                 | Inr (f, q) \<Rightarrow> Some (Returns f (s\<lparr>frame_queue := q\<rparr>)))
           else None))"

text \<open>
  The loop is a busy wait: a pass that finds neither the event set nor a frame can only
  be followed by a different one when other threads have run. \<open>env\<close> is what they do
  to the object between two passes. A wait that never ends is the value \<open>None\<close> of
  \<open>read\<close>.
\<close>

partial_function (option) read ::
  "(('f, 'm) base_video_stream_scheme \<Rightarrow> ('f, 'm) base_video_stream_scheme)
     \<Rightarrow> ('f, 'm) base_video_stream_scheme
     \<Rightarrow> ('f, ('f, 'm) base_video_stream_scheme) result option" where
  "read env s =
     (case read_pass s of
        Some r \<Rightarrow> Some r
      | None \<Rightarrow> read env (env s))"

text \<open>
  \<^verbatim>\<open>stop\<close>, lines 159 to 164: the flag, then the join when there is a thread, then the
  release. \<^verbatim>\<open>self._stream\<close> is \<^verbatim>\<open>None\<close> when \<^verbatim>\<open>start\<close> never assigned it.
\<close>

definition stop ::
  "('f, 'm) base_video_stream_scheme
     \<Rightarrow> (unit, ('f, 'm) base_video_stream_scheme) result option" where
  "stop s =
     (let s1 = s\<lparr>stopped := True\<rparr> in
      case (if thread s1 \<noteq> None then join s1 else Some s1) of
        None \<Rightarrow> None
      | Some s2 \<Rightarrow>
          (case stream s2 of
             None \<Rightarrow> Some (Raises AttributeError s2)
           | Some c \<Rightarrow> Some (Returns () (s2\<lparr>stream := Some (release c)\<rparr>))))"


section \<open>Runs of the object\<close>

text \<open>
  A stream is fresh when its base attributes are the ones \<^verbatim>\<open>__init__\<close> assigns.
\<close>

definition fresh :: "('f, 'm) base_video_stream_scheme \<Rightarrow> bool" where
  "fresh s = (base_video_stream.truncate s = BaseVideoStream_init (cmd s) (backend s))"

text \<open>
  After \<^verbatim>\<open>start\<close> the object is shared by the capture thread, the repeat timers and
  the caller. A run begins after \<^verbatim>\<open>start\<close> and is a sequence of their actions in the order in which they take
  effect: a step of the capture thread, a tick of a timer, and on the caller's side a pass
  of \<^verbatim>\<open>read\<close>, the count of a displayed frame and the calls of \<^verbatim>\<open>stop\<close>,
  \<^verbatim>\<open>start_counting_fps\<close> and \<^verbatim>\<open>release_fps_stats\<close>. While the caller waits in the
  join of \<^verbatim>\<open>stop\<close> only the capture thread touches the device and the flags, so the call
  is one action.
\<close>

datatype action =
    CaptureStep
  | TimerTick nat
  | ReadPass
  | CountDisplayed
  | CallStop
  | CallStartCountingFps
  | CallReleaseFpsStats

fun after :: "('a, 's) result option \<Rightarrow> 's \<Rightarrow> 's" where
  "after (Some r) s = state_of r"
| "after None s = s"

fun act :: "action \<Rightarrow> ('f, 'm) base_video_stream_scheme \<Rightarrow> ('f, 'm) base_video_stream_scheme" where
  "act CaptureStep s = update_step s"
| "act (TimerTick i) s = timer_tick i s"
| "act ReadPass s = after (read_pass s) s"
| "act CountDisplayed s = count_displayed s"
| "act CallStop s = after (stop s) s"
| "act CallStartCountingFps s = state_of (start_counting_fps s)"
| "act CallReleaseFpsStats s = state_of (release_fps_stats s)"

definition run ::
  "action list \<Rightarrow> ('f, 'm) base_video_stream_scheme \<Rightarrow> ('f, 'm) base_video_stream_scheme" where
  "run acts s = fold act acts s"

text \<open>
  The frames the capture thread has read and the frames the consumer has displayed, in
  the order in which they were counted.
\<close>

datatype 'f counted = FrameRead 'f | FrameDisplayed

fun count_event ::
  "'f counted \<Rightarrow> ('f, 'm) base_video_stream_scheme \<Rightarrow> ('f, 'm) base_video_stream_scheme" where
  "count_event (FrameRead f) s = push_frame f s"
| "count_event FrameDisplayed s = count_displayed s"

fun is_frame_read :: "'f counted \<Rightarrow> bool" where
  "is_frame_read (FrameRead f) = True"
| "is_frame_read FrameDisplayed = False"

section \<open>The documented camera modes\<close>

text \<open>
  The documented meaning of a camera mode (docstring of \<^verbatim>\<open>JetsonCameraMode\<close>, lines
  186 to 193): the member's name is the sensor, the input width and height, the frame rate
  and the sensor mode, in this order. \<open>documented_mode\<close> reads the sensor mode, the
  width, the height and the frame rate off the name.
\<close>

fun split_on :: "char \<Rightarrow> string \<Rightarrow> string list" where
  "split_on sep [] = [[]]"
| "split_on sep (c # cs) =
     (if c = sep then [] # split_on sep cs
      else (case split_on sep cs of [] \<Rightarrow> [[c]] | w # ws \<Rightarrow> (c # w) # ws))"

definition digit_value :: "char \<Rightarrow> int option" where
  "digit_value c = map_of (zip ''0123456789'' [0, 1, 2, 3, 4, 5, 6, 7, 8, 9]) c"

fun decimal :: "int \<Rightarrow> string \<Rightarrow> int option" where
  "decimal acc [] = Some acc"
| "decimal acc (c # cs) =
     (case digit_value c of None \<Rightarrow> None | Some d \<Rightarrow> decimal (10 * acc + d) cs)"

definition documented_mode :: "JetsonCameraMode \<Rightarrow> (int \<times> int \<times> int \<times> int) option" where
  "documented_mode m =
     (case split_on CHR ''_'' (mode_name m) of
        [sensor, dims, rate, idx] \<Rightarrow>
          (case split_on CHR ''x'' dims of
             [w, h] \<Rightarrow>
               (case (decimal 0 idx, decimal 0 w, decimal 0 h, decimal 0 rate) of
                  (Some i, Some cw, Some ch, Some fr) \<Rightarrow> Some (i, cw, ch, fr)
                | _ \<Rightarrow> None)
           | _ \<Rightarrow> None)
      | _ \<Rightarrow> None)"

text \<open>
  The documented meaning of a rotation (lines 177 to 182): the value of the member is the
  rotation in degrees. The flip method of the pipeline counts quarter turns.
\<close>

fun rotation_degrees :: "FrameRotation \<Rightarrow> int" where
  "rotation_degrees ROTATE_NONE = 0"
| "rotation_degrees ROTATE_90 = 90"
| "rotation_degrees ROTATE_180 = 180"

definition documented_flip :: "FrameRotation \<Rightarrow> int" where
  "documented_flip r = rotation_degrees r div 90"

section \<open>Invariants of a run\<close>

text \<open>
  Two properties of a state that every action keeps. The queue is bounded when its
  length is at most its \<^verbatim>\<open>maxlen\<close>, which is \<open>n\<close>. The device is safe when the
  stream has one, \<open>n\<close> reads were issued on it after its release, and it is released
  only if the capture thread has returned; a stream that is safe has a capture thread.
\<close>

definition queue_bounded :: "nat \<Rightarrow> ('f, 'm) base_video_stream_scheme \<Rightarrow> bool" where
  "queue_bounded n s = (queue_depth s = n \<and> length (frame_queue s) \<le> n)"

definition device_safe :: "nat \<Rightarrow> ('f, 'm) base_video_stream_scheme \<Rightarrow> bool" where
  "device_safe n s =
     (case stream s of
        None \<Rightarrow> False
      | Some c \<Rightarrow>
          stale_reads c = n \<and>
          (if released c then thread s = Some ThreadReturned else thread s \<noteq> None))"

section \<open>A backend for concrete runs\<close>

text \<open>
  A backend for concrete runs: its device is opened and delivers the frames
  \<open>0, \<dots>, k - 1\<close>, then fails.
\<close>

definition test_capture :: "nat \<Rightarrow> nat video_capture" where
  "test_capture k =
     \<lparr>is_opened = True,
      feed = (\<lambda>n. if n < k then (True, Some n) else (False, None)),
      reads = 0,
      released = False,
      stale_reads = 0\<rparr>"

definition test_backend :: "nat \<Rightarrow> string \<Rightarrow> int \<Rightarrow> nat open_result" where
  "test_backend k c b = OpenReturns (test_capture k)"

definition test_stream :: "nat \<Rightarrow> nat base_video_stream" where
  "test_stream k = state_of (start (test_backend k) (BaseVideoStream_init [] CAP_GSTREAMER))"

section \<open>Properties\<close>

subsection \<open>Fresh objects\<close>

lemma fresh_base: "fresh (BaseVideoStream_init c b)"
  by (simp add: fresh_def BaseVideoStream_init_def base_video_stream.defs)

lemma fresh_jetson: "JetsonVideoStream_init cam r m dw dh = Inr s \<Longrightarrow> fresh s"
  by (auto simp: JetsonVideoStream_init_def fresh_def BaseVideoStream_init_def
      base_video_stream.defs jetson_video_stream.defs split: sum.splits prod.splits)

lemma fresh_fields:
  "fresh s \<Longrightarrow>
   thread s = None \<and> stream s = None \<and> frame_queue s = [] \<and> queue_depth s = 2
   \<and> frames_read s = 0 \<and> frames_displayed s = 0 \<and> update_failure s = None
   \<and> fps_timer s = None \<and> timers s = [] \<and> \<not> stopped s"
  apply (cases s)
  apply (simp add: fresh_def BaseVideoStream_init_def base_video_stream.defs)
  done

lemma test_stream_eq:
  "0 < k \<Longrightarrow> test_stream k =
     (BaseVideoStream_init [] CAP_GSTREAMER)
       \<lparr>stream := Some ((test_capture k)\<lparr>reads := Suc 0\<rparr>), update_failure := Some False,
         thread := Some AtStoppedCheck\<rparr>"
  by (simp add: test_stream_def start_def test_backend_def isOpened_def capture_read_def
      test_capture_def)

subsection \<open>Construction of a camera profile\<close>

lemma documented_mode_table:
  "documented_mode IMX219_3264x2468_21_0 = Some (0, 3264, 2468, 21)"
  "documented_mode IMX219_3264x1848_28_1 = Some (1, 3264, 1848, 28)"
  "documented_mode IMX219_1920x1080_30_2 = Some (2, 1920, 1080, 30)"
  "documented_mode IMX219_1640x1232_30_3 = Some (3, 1640, 1232, 30)"
  "documented_mode IMX477_4032x3040_30_0 = Some (0, 4032, 3040, 30)"
  "documented_mode IMX477_1920x1080_60_1 = Some (1, 1920, 1080, 60)"
  "documented_mode IMX477_2560x1440_40_3 = Some (3, 2560, 1440, 40)"
  by (simp_all add: documented_mode_def digit_value_def)

lemma mode_of_member: "\<exists>t. mode_of (PyCameraMode m) = Inr t \<and> documented_mode m = Some t"
  by (cases m) (simp_all add: mode_of_def documented_mode_table)

lemma documented_flip_table:
  "documented_flip ROTATE_NONE = 0"
  "documented_flip ROTATE_90 = 1"
  "documented_flip ROTATE_180 = 2"
  by (simp_all add: documented_flip_def)

lemma flip_of_member: "flip_of (PyRotation r) = Inr (documented_flip r)"
  by (cases r) (simp_all add: flip_of_def documented_flip_table)

lemma flip_of_other: "(\<nexists>r. v = PyRotation r) \<Longrightarrow> \<exists>msg. flip_of v = Inl (ValueError msg)"
  by (cases v) (auto simp: flip_of_def)

lemma mode_of_other: "(\<nexists>m. v = PyCameraMode m) \<Longrightarrow> \<exists>msg. mode_of v = Inl (ValueError msg)"
  by (cases v) (auto simp: mode_of_def)

text \<open>
  Claim C4. For every member of \<^verbatim>\<open>FrameRotation\<close> and every member of
  \<^verbatim>\<open>JetsonCameraMode\<close> the constructor succeeds; the sensor mode index, capture width,
  capture height and frame rate it stores are the ones the member's name documents, and
  the pipeline it builds carries them with the flip method that is the rotation in
  quarter turns (0, 1 and 2 for 0, 90 and 180 degrees). For every
  \<^verbatim>\<open>rotation\<close> that is not a member of \<^verbatim>\<open>FrameRotation\<close>, and every
  \<^verbatim>\<open>camera_mode\<close> that is not a member of \<^verbatim>\<open>JetsonCameraMode\<close>, the constructor
  raises \<^verbatim>\<open>ValueError\<close> (the configuration error of the module); no default is used.
\<close>

theorem profile_construction:
  "(\<exists>s. (JetsonVideoStream_init cam (PyRotation r) (PyCameraMode m) dw dh
            :: exn + 'f jetson_video_stream) = Inr s
       \<and> documented_mode m = Some (mode s, capture_width s, capture_height s, framerate s)
       \<and> cmd s = pipeline cam (mode s) (capture_width s) (capture_height s) (framerate s)
                   (documented_flip r) dw dh)
   \<and> ((\<nexists>r'. rot = PyRotation r') \<or> (\<nexists>m'. cm = PyCameraMode m') \<longrightarrow>
        (\<exists>msg. (JetsonVideoStream_init cam rot cm dw dh
                   :: exn + 'f jetson_video_stream) = Inl (ValueError msg)))"
proof (intro conjI impI)
  obtain t where t: "mode_of (PyCameraMode m) = Inr t" "documented_mode m = Some t"
    using mode_of_member by blast
  obtain md cw ch fr where tt: "t = (md, cw, ch, fr)" by (cases t) auto
  show "\<exists>s. (JetsonVideoStream_init cam (PyRotation r) (PyCameraMode m) dw dh
            :: exn + 'f jetson_video_stream) = Inr s
       \<and> documented_mode m = Some (mode s, capture_width s, capture_height s, framerate s)
       \<and> cmd s = pipeline cam (mode s) (capture_width s) (capture_height s) (framerate s)
                   (documented_flip r) dw dh"
    using t tt
    by (simp add: JetsonVideoStream_init_def flip_of_member BaseVideoStream_init_def
        base_video_stream.defs jetson_video_stream.defs)
next
  assume bad: "(\<nexists>r'. rot = PyRotation r') \<or> (\<nexists>m'. cm = PyCameraMode m')"
  show "\<exists>msg. (JetsonVideoStream_init cam rot cm dw dh
                   :: exn + 'f jetson_video_stream) = Inl (ValueError msg)"
  proof (cases "\<exists>r'. rot = PyRotation r'")
    case False
    then obtain msg where "flip_of rot = Inl (ValueError msg)" using flip_of_other by blast
    then show ?thesis by (simp add: JetsonVideoStream_init_def)
  next
    case True
    with bad have "\<nexists>m'. cm = PyCameraMode m'" by blast
    then obtain msg where m: "mode_of cm = Inl (ValueError msg)" using mode_of_other by blast
    from True obtain r' where "rot = PyRotation r'" by blast
    then show ?thesis using m by (simp add: JetsonVideoStream_init_def flip_of_member)
  qed
qed

theorem profile_construction_witness:
  "(\<exists>s. (JetsonVideoStream_init 0 (PyRotation ROTATE_180) (PyCameraMode IMX477_4032x3040_30_0) 640 480
            :: exn + nat jetson_video_stream) = Inr s
       \<and> (mode s, capture_width s, capture_height s, framerate s) = (0, 4032, 3040, 30)
       \<and> cmd s = pipeline 0 0 4032 3040 30 2 640 480)
   \<and> (\<nexists>r'. PyInt 90 = PyRotation r')
   \<and> (\<exists>msg. (JetsonVideoStream_init 0 (PyInt 90) (PyCameraMode IMX477_4032x3040_30_0) 640 480
                   :: exn + nat jetson_video_stream) = Inl (ValueError msg))"
  using profile_construction [where 'f = nat, of 0 ROTATE_180 IMX477_4032x3040_30_0 640 480 "PyInt 90"
      "PyCameraMode IMX477_4032x3040_30_0"]
  by (auto simp: documented_mode_table documented_flip_table)



subsection \<open>The frame queue\<close>

lemma take_append_take: "take n (xs @ take n ys) = take n (xs @ ys)"
  by (simp add: min_def)

lemma queue_depth_push: "queue_depth (push_frame f s) = queue_depth s"
  by (simp add: push_frame_def)

lemma frame_queue_push:
  "frame_queue (push_frame f s) = take (queue_depth s) (f # frame_queue s)"
  by (simp add: push_frame_def appendleft_def)

lemma update_failure_push: "update_failure (push_frame f s) = update_failure s"
  by (simp add: push_frame_def)

lemma queue_depth_fold_push: "queue_depth (fold push_frame fs s) = queue_depth s"
  by (induction fs arbitrary: s) (simp_all add: queue_depth_push)

lemma frame_queue_fold_push_bounded:
  "length (frame_queue s) \<le> queue_depth s \<Longrightarrow>
   frame_queue (fold push_frame fs s) = take (queue_depth s) (rev fs @ frame_queue s)"
proof (induction fs arbitrary: s)
  case Nil
  then show ?case by simp
next
  case (Cons f fs)
  have "length (frame_queue (push_frame f s)) \<le> queue_depth (push_frame f s)"
    by (simp add: frame_queue_push queue_depth_push)
  from Cons.IH [OF this] show ?case
    by (simp add: frame_queue_push queue_depth_push take_append_take)
qed

lemma frame_queue_fold_push:
  assumes "fs \<noteq> []"
  shows "frame_queue (fold push_frame fs s) = take (queue_depth s) (rev fs @ frame_queue s)"
proof -
  from assms obtain f fs' where fs: "fs = f # fs'" by (cases fs) auto
  have "length (frame_queue (push_frame f s)) \<le> queue_depth (push_frame f s)"
    by (simp add: frame_queue_push queue_depth_push)
  from frame_queue_fold_push_bounded [OF this, of fs'] show ?thesis
    by (simp add: fs frame_queue_push queue_depth_push take_append_take)
qed

lemma take_2_rev:
  assumes "2 \<le> length fs"
  shows "take 2 (rev fs) = [fs ! (length fs - 1), fs ! (length fs - 2)]"
proof -
  obtain a b rest where r: "rev fs = a # b # rest"
    using assms by (cases "rev fs"; cases "tl (rev fs)") (auto simp: Suc_le_eq dest: arg_cong [where f = length])
  have "0 < length fs" "Suc 0 < length fs" using assms by linarith+
  then have "rev fs ! 0 = fs ! (length fs - Suc 0)" "rev fs ! Suc 0 = fs ! (length fs - Suc (Suc 0))"
    by (simp_all only: rev_nth)
  then have ab: "a = fs ! (length fs - 1)" "b = fs ! (length fs - 2)"
    by (simp_all add: r numeral_2_eq_2)
  have "take 2 (rev fs) = [a, b]"
    unfolding r by simp
  then show ?thesis
    unfolding ab .
qed

subsection \<open>Reading\<close>

lemma read_decided: "read_pass s = Some r \<Longrightarrow> read env s = Some r"
  by (subst read.simps) simp

lemma read_again: "read_pass s = None \<Longrightarrow> read env s = read env (env s)"
  by (subst read.simps) simp

lemma read_pass_failed:
  "update_failure s = Some True \<Longrightarrow> read_pass s = Some (Raises CameraConnectionLost s)"
  by (simp add: read_pass_def)

lemma read_pass_frame:
  "update_failure s = Some False \<Longrightarrow> frame_queue s = q @ [f] \<Longrightarrow>
   read_pass s = Some (Returns f (s\<lparr>frame_queue := q\<rparr>))"
  by (simp add: read_pass_def deque_pop_def)

lemma read_pass_empty:
  "update_failure s = Some False \<Longrightarrow> frame_queue s = [] \<Longrightarrow> read_pass s = None"
  by (simp add: read_pass_def)

text \<open>
  Claim C1. On a started stream whose queue has depth 2, after the frames \<open>x\<close>,
  \<open>y\<close>, \<open>z\<close> were pushed in this order with no \<^verbatim>\<open>read\<close> in between, the queue is
  \<open>[z, y]\<close> (the newest frame at the left end), the first \<^verbatim>\<open>read\<close> returns \<open>y\<close>
  and leaves \<open>[z]\<close>, and the second returns \<open>z\<close>.
\<close>

theorem second_most_recent_first:
  assumes "queue_depth s = 2" and "update_failure s = Some False"
  shows "frame_queue (push_frame z (push_frame y (push_frame x s))) = [z, y]
    \<and> read env (push_frame z (push_frame y (push_frame x s)))
        = Some (Returns y ((push_frame z (push_frame y (push_frame x s)))\<lparr>frame_queue := [z]\<rparr>))
    \<and> read env ((push_frame z (push_frame y (push_frame x s)))\<lparr>frame_queue := [z]\<rparr>)
        = Some (Returns z ((push_frame z (push_frame y (push_frame x s)))\<lparr>frame_queue := []\<rparr>))"
proof -
  let ?s3 = "push_frame z (push_frame y (push_frame x s))"
  have q: "frame_queue ?s3 = [z, y]"
    using assms(1) by (simp add: frame_queue_push queue_depth_push)
  have u: "update_failure ?s3 = Some False"
    using assms(2) by (simp add: update_failure_push)
  have "read_pass ?s3 = Some (Returns y (?s3\<lparr>frame_queue := [z]\<rparr>))"
    using read_pass_frame [OF u, of "[z]" y] q by simp
  then have r1: "read env ?s3 = Some (Returns y (?s3\<lparr>frame_queue := [z]\<rparr>))"
    by (rule read_decided)
  have "read_pass (?s3\<lparr>frame_queue := [z]\<rparr>) = Some (Returns z (?s3\<lparr>frame_queue := [z]\<rparr>\<lparr>frame_queue := []\<rparr>))"
    using read_pass_frame [of "?s3\<lparr>frame_queue := [z]\<rparr>" "[]" z] u by simp
  then have r2: "read env (?s3\<lparr>frame_queue := [z]\<rparr>) = Some (Returns z (?s3\<lparr>frame_queue := []\<rparr>))"
    using read_decided by fastforce
  from q r1 r2 show ?thesis by simp
qed

theorem second_most_recent_first_witness:
  "queue_depth (test_stream 4) = 2 \<and> update_failure (test_stream 4) = Some False
   \<and> frame_queue (push_frame 3 (push_frame 2 (push_frame 1 (test_stream 4)))) = [3, 2]
   \<and> read update_step (push_frame 3 (push_frame 2 (push_frame 1 (test_stream 4))))
        = Some (Returns 2 ((push_frame 3 (push_frame 2 (push_frame 1 (test_stream 4))))\<lparr>frame_queue := [3]\<rparr>))"
proof -
  have h: "queue_depth (test_stream 4) = 2" "update_failure (test_stream 4) = Some False"
    by (simp_all add: test_stream_eq BaseVideoStream_init_def)
  from second_most_recent_first [OF h, where env = update_step and x = 1 and y = 2 and z = 3] h
  show ?thesis by simp
qed

subsection \<open>The capture thread and the join\<close>

lemma update_step_idle:
  "thread s = None \<or> thread s = Some ThreadReturned \<Longrightarrow> update_step s = s"
  by (auto simp: update_step_def)

lemma update_step_check:
  "thread s = Some AtStoppedCheck \<Longrightarrow>
   update_step s = s\<lparr>thread := Some (if stopped s then ThreadReturned else AtStreamRead)\<rparr>"
  by (simp add: update_step_def)

lemma update_step_read_fails:
  assumes "thread s = Some AtStreamRead" and "stream s = Some c" and "\<not> released c"
    and "fst (feed c (reads c)) = False \<or> snd (feed c (reads c)) = None"
  shows "update_step s = s\<lparr>stream := Some (c\<lparr>reads := Suc (reads c)\<rparr>),
                          update_failure := Some True, thread := Some ThreadReturned\<rparr>"
  using assms by (auto simp: update_step_def capture_read_def split: prod.splits)

lemma update_step_read_frame:
  assumes "thread s = Some AtStreamRead" and "stream s = Some c" and "\<not> released c"
    and "feed c (reads c) = (True, Some f)"
  shows "update_step s = (push_frame f (s\<lparr>stream := Some (c\<lparr>reads := Suc (reads c)\<rparr>)\<rparr>))
                          \<lparr>thread := Some AtStoppedCheck\<rparr>"
  using assms by (simp add: update_step_def capture_read_def)

lemma stopped_update_step: "stopped (update_step s) = stopped s"
  by (auto simp: update_step_def push_frame_def split: option.splits thread_pc.splits prod.splits)

lemma thread_update_step_stopped:
  "stopped s \<Longrightarrow> thread s \<noteq> None \<Longrightarrow>
   thread (update_step s) = Some AtStoppedCheck \<or> thread (update_step s) = Some ThreadReturned"
  by (auto simp: update_step_def push_frame_def split: option.splits thread_pc.splits prod.splits)

lemma thread_update_step_None: "thread (update_step s) = None \<longleftrightarrow> thread s = None"
  by (auto simp: update_step_def push_frame_def split: option.splits thread_pc.splits prod.splits)

lemma two_steps_return:
  assumes "stopped s" and "thread s \<noteq> None"
  shows "thread (update_step (update_step s)) = Some ThreadReturned"
proof -
  from thread_update_step_stopped [OF assms]
  show ?thesis
  proof
    assume "thread (update_step s) = Some AtStoppedCheck"
    then show ?thesis
      using assms(1) by (simp add: update_step_check [of "update_step s"] stopped_update_step)
  next
    assume r: "thread (update_step s) = Some ThreadReturned"
    then show ?thesis by (simp add: update_step_idle)
  qed
qed

lemma join_idle: "thread s = None \<or> thread s = Some ThreadReturned \<Longrightarrow> join s = Some s"
  by (subst join.simps) auto

lemma join_step: "thread s = Some AtStoppedCheck \<or> thread s = Some AtStreamRead \<Longrightarrow>
  join s = join (update_step s)"
  by (subst join.simps) auto

lemma join_stopped:
  assumes "stopped s"
  shows "join s = Some (update_step (update_step s))"
proof (cases "thread s = None \<or> thread s = Some ThreadReturned")
  case True
  then show ?thesis by (simp add: join_idle update_step_idle)
next
  case False
  then have live: "thread s = Some AtStoppedCheck \<or> thread s = Some AtStreamRead"
    by (cases "thread s"; cases "the (thread s)") auto
  have ret: "thread (update_step (update_step s)) = Some ThreadReturned"
    using two_steps_return [OF assms] False by simp
  show ?thesis
  proof (cases "thread (update_step s) = Some ThreadReturned")
    case True
    then show ?thesis
      using live by (simp add: join_step [of s] join_idle update_step_idle)
  next
    case False
    with thread_update_step_stopped [OF assms] live
    have "thread (update_step s) = Some AtStoppedCheck" by auto
    then show ?thesis
      using live ret by (simp add: join_step [of s] join_step [of "update_step s"] join_idle)
  qed
qed

lemma stop_unfold:
  "stop s =
     (case stream (update_step (update_step (s\<lparr>stopped := True\<rparr>))) of
        None \<Rightarrow> Some (Raises AttributeError (update_step (update_step (s\<lparr>stopped := True\<rparr>))))
      | Some c \<Rightarrow> Some (Returns () ((update_step (update_step (s\<lparr>stopped := True\<rparr>)))
                                      \<lparr>stream := Some (release c)\<rparr>)))"
proof (cases "thread s = None")
  case True
  then have "update_step (s\<lparr>stopped := True\<rparr>) = s\<lparr>stopped := True\<rparr>"
    by (simp add: update_step_idle)
  then have e: "update_step (update_step (s\<lparr>stopped := True\<rparr>)) = s\<lparr>stopped := True\<rparr>"
    by simp
  show ?thesis
    unfolding e using True by (simp add: stop_def Let_def)
next
  case False
  then show ?thesis by (simp add: stop_def Let_def join_stopped)
qed

subsection \<open>What the actions preserve\<close>

lemma after_stop:
  "after (stop s) s =
     (case stream (update_step (update_step (s\<lparr>stopped := True\<rparr>))) of
        None \<Rightarrow> update_step (update_step (s\<lparr>stopped := True\<rparr>))
      | Some c \<Rightarrow> (update_step (update_step (s\<lparr>stopped := True\<rparr>)))\<lparr>stream := Some (release c)\<rparr>)"
  by (simp add: stop_unfold split: option.splits)

lemma run_Nil: "run [] s = s"
  by (simp add: run_def)

lemma run_Cons: "run (a # acts) s = run acts (act a s)"
  by (simp add: run_def)

text \<open>The bound of the queue.\<close>

lemma queue_bounded_update_step: "queue_bounded n s \<Longrightarrow> queue_bounded n (update_step s)"
  by (auto simp: queue_bounded_def update_step_def push_frame_def appendleft_def
      split: option.splits thread_pc.splits prod.splits)

lemma queue_bounded_act: "queue_bounded n s \<Longrightarrow> queue_bounded n (act a s)"
proof (cases a)
  case CaptureStep
  assume "queue_bounded n s"
  then show ?thesis using CaptureStep by (simp add: queue_bounded_update_step)
next
  case (TimerTick i)
  assume "queue_bounded n s"
  then show ?thesis using TimerTick
    by (simp add: queue_bounded_def timer_tick_def update_fps_stats_def)
next
  case ReadPass
  assume "queue_bounded n s"
  then show ?thesis using ReadPass
    by (auto simp: queue_bounded_def read_pass_def deque_pop_def split: option.splits)
next
  case CountDisplayed
  assume "queue_bounded n s"
  then show ?thesis using CountDisplayed by (simp add: queue_bounded_def count_displayed_def)
next
  case CallStop
  assume "queue_bounded n s"
  then have "queue_bounded n (s\<lparr>stopped := True\<rparr>)" by (simp add: queue_bounded_def)
  then have "queue_bounded n (update_step (update_step (s\<lparr>stopped := True\<rparr>)))"
    by (intro queue_bounded_update_step)
  then show ?thesis using CallStop
    by (auto simp: after_stop queue_bounded_def split: option.splits)
next
  case CallStartCountingFps
  assume "queue_bounded n s"
  then show ?thesis using CallStartCountingFps
    by (simp add: queue_bounded_def start_counting_fps_def)
next
  case CallReleaseFpsStats
  assume "queue_bounded n s"
  then show ?thesis using CallReleaseFpsStats
    by (auto simp: queue_bounded_def release_fps_stats_def split: option.splits)
qed

lemma queue_bounded_run: "queue_bounded n s \<Longrightarrow> queue_bounded n (run acts s)"
  by (induction acts arbitrary: s) (simp_all add: run_Nil run_Cons queue_bounded_act)

text \<open>The failure event is never cleared.\<close>

lemma failure_update_step:
  "update_failure s = Some True \<Longrightarrow> update_failure (update_step s) = Some True"
  by (auto simp: update_step_def push_frame_def split: option.splits thread_pc.splits prod.splits)

lemma failure_act: "update_failure s = Some True \<Longrightarrow> update_failure (act a s) = Some True"
proof (cases a)
  case CallStop
  assume "update_failure s = Some True"
  then have "update_failure (s\<lparr>stopped := True\<rparr>) = Some True" by simp
  then have "update_failure (update_step (update_step (s\<lparr>stopped := True\<rparr>))) = Some True"
    by (intro failure_update_step)
  then show ?thesis using CallStop by (auto simp: after_stop split: option.splits)
qed (auto simp: failure_update_step timer_tick_def update_fps_stats_def read_pass_def
    count_displayed_def start_counting_fps_def release_fps_stats_def split: option.splits)

lemma failure_run: "update_failure s = Some True \<Longrightarrow> update_failure (run acts s) = Some True"
  by (induction acts arbitrary: s) (simp_all add: run_Nil run_Cons failure_act)

text \<open>No read of a released device.\<close>

lemma device_safe_update_step: "device_safe n s \<Longrightarrow> device_safe n (update_step s)"
  by (auto simp: device_safe_def update_step_def push_frame_def capture_read_def
      split: option.splits thread_pc.splits prod.splits if_splits)

lemma device_safe_stop:
  assumes "device_safe n s"
  shows "\<exists>j c. join (s\<lparr>stopped := True\<rparr>) = Some j \<and> stream j = Some c
            \<and> thread j = Some ThreadReturned \<and> stale_reads c = n
            \<and> stop s = Some (Returns () (j\<lparr>stream := Some (release c)\<rparr>))
            \<and> device_safe n (j\<lparr>stream := Some (release c)\<rparr>)"
proof -
  let ?j = "update_step (update_step (s\<lparr>stopped := True\<rparr>))"
  from assms have s1: "device_safe n (s\<lparr>stopped := True\<rparr>)"
    by (auto simp: device_safe_def split: option.splits)
  then have sj: "device_safe n ?j"
    by (intro device_safe_update_step)
  from assms have "thread (s\<lparr>stopped := True\<rparr>) \<noteq> None"
    by (auto simp: device_safe_def split: option.splits if_splits)
  then have tj: "thread ?j = Some ThreadReturned"
    by (intro two_steps_return) simp_all
  from sj obtain c where c: "stream ?j = Some c" "stale_reads c = n"
    by (auto simp: device_safe_def split: option.splits)
  have j: "join (s\<lparr>stopped := True\<rparr>) = Some ?j"
    by (simp add: join_stopped)
  have st: "stop s = Some (Returns () (?j\<lparr>stream := Some (release c)\<rparr>))"
    by (simp add: stop_unfold c)
  have "device_safe n (?j\<lparr>stream := Some (release c)\<rparr>)"
    using tj c by (simp add: device_safe_def release_def)
  with j c tj st show ?thesis by blast
qed

lemma act_leaves_device:
  assumes "a \<noteq> CaptureStep" and "a \<noteq> CallStop"
  shows "stream (act a s) = stream s \<and> thread (act a s) = thread s"
  using assms
  by (cases a)
    (auto simp: timer_tick_def update_fps_stats_def read_pass_def deque_pop_def
      count_displayed_def start_counting_fps_def release_fps_stats_def split: option.splits)

lemma device_safe_act:
  assumes "device_safe n s"
  shows "device_safe n (act a s)"
proof (cases "a = CaptureStep \<or> a = CallStop")
  case True
  then show ?thesis
  proof
    assume "a = CaptureStep"
    then show ?thesis using assms by (simp add: device_safe_update_step)
  next
    assume "a = CallStop"
    then show ?thesis using device_safe_stop [OF assms] by auto
  qed
next
  case False
  then have "stream (act a s) = stream s \<and> thread (act a s) = thread s"
    by (intro act_leaves_device) simp_all
  then show ?thesis using assms by (auto simp: device_safe_def split: option.splits)
qed

lemma device_safe_run: "device_safe n s \<Longrightarrow> device_safe n (run acts s)"
  by (induction acts arbitrary: s) (simp_all add: run_Nil run_Cons device_safe_act)

subsection \<open>The bound of the frame queue\<close>

text \<open>
  Claim C2. A queue of depth 2 that holds at most 2 frames holds at most 2 frames after
  every run and after every sequence of pushes; after more than two pushes with no
  \<^verbatim>\<open>read\<close> in between it holds exactly the last frame pushed and the one pushed
  before it, in this order from the left end, and no older one.
\<close>

theorem frame_queue_at_most_two:
  assumes "queue_depth s = 2" and "length (frame_queue s) \<le> 2"
  shows "length (frame_queue (run acts s)) \<le> 2
       \<and> length (frame_queue (fold push_frame fs s)) \<le> 2
       \<and> (2 < length fs \<longrightarrow>
            frame_queue (fold push_frame fs s) = [fs ! (length fs - 1), fs ! (length fs - 2)])"
proof (intro conjI impI)
  from assms have "queue_bounded 2 s" by (simp add: queue_bounded_def)
  then have "queue_bounded 2 (run acts s)" by (rule queue_bounded_run)
  then show "length (frame_queue (run acts s)) \<le> 2" by (simp add: queue_bounded_def)
  show "length (frame_queue (fold push_frame fs s)) \<le> 2"
    using assms by (simp add: frame_queue_fold_push_bounded)
next
  assume n: "2 < length fs"
  then have "fs \<noteq> []" by auto
  then have "frame_queue (fold push_frame fs s) = take 2 (rev fs @ frame_queue s)"
    using assms(1) by (simp add: frame_queue_fold_push)
  also have "\<dots> = take 2 (rev fs)" using n by simp
  also have "\<dots> = [fs ! (length fs - 1), fs ! (length fs - 2)]"
    using n by (intro take_2_rev) simp
  finally show "frame_queue (fold push_frame fs s) = [fs ! (length fs - 1), fs ! (length fs - 2)]" .
qed

lemma run_test_stream_5:
  "frame_queue (run [CaptureStep, CaptureStep, CaptureStep, CaptureStep, CaptureStep, CaptureStep,
       CaptureStep, CaptureStep] (test_stream 5)) = [4, 3]"
  by (simp add: run_def test_stream_eq BaseVideoStream_init_def update_step_def
      capture_read_def test_capture_def push_frame_def appendleft_def)

theorem frame_queue_at_most_two_witness:
  "queue_depth (test_stream 5) = 2 \<and> length (frame_queue (test_stream 5)) \<le> 2
   \<and> frame_queue (run [CaptureStep, CaptureStep, CaptureStep, CaptureStep, CaptureStep, CaptureStep,
       CaptureStep, CaptureStep] (test_stream 5)) = [4, 3]
   \<and> 2 < length [7, 8, 9 :: nat]
   \<and> frame_queue (fold push_frame [7, 8, 9] (test_stream 5)) = [9, 8]"
proof -
  have h: "queue_depth (test_stream 5) = 2" "length (frame_queue (test_stream 5)) \<le> 2"
    by (simp_all add: test_stream_eq BaseVideoStream_init_def)
  from frame_queue_at_most_two [OF h, where fs = "[7, 8, 9]" and acts = "[CaptureStep, CaptureStep,
      CaptureStep, CaptureStep, CaptureStep, CaptureStep, CaptureStep, CaptureStep]"] h run_test_stream_5
  show ?thesis by simp
qed

subsection \<open>After the thread has returned\<close>

lemma returned_act:
  assumes "thread s = Some ThreadReturned" and "stream s = Some c"
  shows "thread (act a s) = Some ThreadReturned
       \<and> (\<exists>c'. stream (act a s) = Some c' \<and> reads c' = reads c \<and> stale_reads c' = stale_reads c)"
proof (cases "a = CaptureStep \<or> a = CallStop")
  case True
  then show ?thesis
  proof
    assume "a = CaptureStep"
    then show ?thesis using assms by (simp add: update_step_idle)
  next
    assume a: "a = CallStop"
    have "update_step (s\<lparr>stopped := True\<rparr>) = s\<lparr>stopped := True\<rparr>"
      using assms(1) by (simp add: update_step_idle)
    then have e: "update_step (update_step (s\<lparr>stopped := True\<rparr>)) = s\<lparr>stopped := True\<rparr>"
      by simp
    show ?thesis
      unfolding a act.simps after_stop e using assms by (simp add: release_def)
  qed
next
  case False
  then have "stream (act a s) = stream s \<and> thread (act a s) = thread s"
    by (intro act_leaves_device) simp_all
  then show ?thesis using assms by simp
qed

lemma returned_run:
  assumes "thread s = Some ThreadReturned" and "stream s = Some c"
  shows "thread (run acts s) = Some ThreadReturned
       \<and> (\<exists>c'. stream (run acts s) = Some c' \<and> reads c' = reads c \<and> stale_reads c' = stale_reads c)"
  using assms
proof (induction acts arbitrary: s c)
  case Nil
  then show ?case by (simp add: run_Nil)
next
  case (Cons a acts)
  from returned_act [OF Cons.prems, of a] obtain c' where
    a: "thread (act a s) = Some ThreadReturned" "stream (act a s) = Some c'"
      "reads c' = reads c" "stale_reads c' = stale_reads c"
    by blast
  from Cons.IH [OF a(1,2)] a(3,4) show ?case by (simp add: run_Cons)
qed

text \<open>
  Claim C3. When the capture thread is at its read and the read fails (nothing was
  grabbed, or the frame is \<^verbatim>\<open>None\<close>), the step sets the failure event and the thread
  returns: a join returns at once, and in every later run the thread stays returned and
  the device has been read exactly once more, so the read is not retried. Every later
  \<^verbatim>\<open>read\<close> raises \<^verbatim>\<open>CameraConnectionLost\<close>, whatever the queue holds and
  whatever the other threads do, and so does not wait.
\<close>

theorem failed_read_is_fatal:
  assumes "thread s = Some AtStreamRead" and "stream s = Some c" and "\<not> released c"
    and "fst (feed c (reads c)) = False \<or> snd (feed c (reads c)) = None"
  shows "update_failure (update_step s) = Some True
       \<and> thread (update_step s) = Some ThreadReturned
       \<and> stream (update_step s) = Some (c\<lparr>reads := Suc (reads c)\<rparr>)
       \<and> join (update_step s) = Some (update_step s)
       \<and> thread (run acts (update_step s)) = Some ThreadReturned
       \<and> (\<exists>c'. stream (run acts (update_step s)) = Some c' \<and> reads c' = Suc (reads c))
       \<and> read env (run acts (update_step s))
           = Some (Raises CameraConnectionLost (run acts (update_step s)))"
proof -
  let ?s = "update_step s"
  have e: "?s = s\<lparr>stream := Some (c\<lparr>reads := Suc (reads c)\<rparr>),
                  update_failure := Some True, thread := Some ThreadReturned\<rparr>"
    using assms by (rule update_step_read_fails)
  have f: "update_failure ?s = Some True" and t: "thread ?s = Some ThreadReturned"
    and d: "stream ?s = Some (c\<lparr>reads := Suc (reads c)\<rparr>)"
    by (simp_all add: e)
  have j: "join ?s = Some ?s" using t by (simp add: join_idle)
  from returned_run [OF t d, of acts]
  have r: "thread (run acts ?s) = Some ThreadReturned"
    "\<exists>c'. stream (run acts ?s) = Some c' \<and> reads c' = Suc (reads c)"
    by auto
  have "update_failure (run acts ?s) = Some True" using f by (rule failure_run)
  then have "read env (run acts ?s) = Some (Raises CameraConnectionLost (run acts ?s))"
    by (intro read_decided read_pass_failed)
  with f t d j r show ?thesis by simp
qed

lemma test_stream_2_read:
  "update_step (update_step (update_step (update_step (test_stream 2))))
     = (BaseVideoStream_init [] CAP_GSTREAMER)
         \<lparr>stream := Some ((test_capture 2)\<lparr>reads := 3\<rparr>), update_failure := Some True,
           thread := Some ThreadReturned, frames_read := 1, frame_queue := [1]\<rparr>"
  by (simp add: test_stream_eq BaseVideoStream_init_def update_step_def
      capture_read_def test_capture_def push_frame_def appendleft_def)

theorem failed_read_is_fatal_witness:
  "thread (update_step (update_step (update_step (test_stream 2)))) = Some AtStreamRead
   \<and> stream (update_step (update_step (update_step (test_stream 2))))
        = Some ((test_capture 2)\<lparr>reads := 2\<rparr>)
   \<and> \<not> released ((test_capture 2)\<lparr>reads := 2\<rparr>)
   \<and> fst (feed ((test_capture 2)\<lparr>reads := 2\<rparr>) 2) = False
   \<and> update_failure (update_step (update_step (update_step (update_step (test_stream 2))))) = Some True
   \<and> read id (run [CaptureStep, ReadPass, TimerTick 0]
        (update_step (update_step (update_step (update_step (test_stream 2))))))
       = Some (Raises CameraConnectionLost (run [CaptureStep, ReadPass, TimerTick 0]
        (update_step (update_step (update_step (update_step (test_stream 2)))))))"
proof -
  let ?s = "update_step (update_step (update_step (test_stream 2)))"
  let ?c = "(test_capture 2)\<lparr>reads := 2\<rparr>"
  have h: "thread ?s = Some AtStreamRead" "stream ?s = Some ?c" "\<not> released ?c"
    "fst (feed ?c (reads ?c)) = False \<or> snd (feed ?c (reads ?c)) = None"
    by (simp_all add: test_stream_eq BaseVideoStream_init_def update_step_def
      capture_read_def test_capture_def push_frame_def appendleft_def)
  have g: "fst (feed ?c 2) = False" by (simp add: test_capture_def)
  from failed_read_is_fatal [OF h, where env = id and acts = "[CaptureStep, ReadPass, TimerTick 0]"] h g
  show ?thesis by simp
qed

subsection \<open>Starting\<close>

lemma start_returns:
  assumes "start VC s = Returns () s0"
  shows "\<exists>c f. VC (cmd s) (backend s) = OpenReturns c \<and> isOpened c
           \<and> feed c (reads c) = (True, Some f)
           \<and> s0 = s\<lparr>stream := Some (c\<lparr>reads := Suc (reads c)\<rparr>), update_failure := Some False,
                     thread := Some AtStoppedCheck\<rparr>"
  using assms
  by (auto simp: start_def isOpened_def capture_read_def
      split: open_result.splits if_splits prod.splits)

lemma run_capture_idle:
  "thread s = None \<Longrightarrow> run (replicate n CaptureStep) s = s"
  by (induction n) (simp_all add: run_Nil run_Cons update_step_idle)

text \<open>
  Claim C5. On a stream that has no capture thread, \<^verbatim>\<open>start\<close> raises
  \<^verbatim>\<open>CameraFailedToStart\<close> with the stream's \<^verbatim>\<open>cmd\<close> and \<^verbatim>\<open>backend\<close> when the backend's
  constructor raises \<^verbatim>\<open>RuntimeError\<close>, when the device it returns is not opened, and
  when the first read grabs nothing or delivers no frame. In each case the stream has no
  capture thread when the call has raised, and no number of capture steps changes it.
\<close>

theorem failed_start_starts_no_thread:
  assumes "thread s = None"
    and "VideoCapture (cmd s) (backend s) = OpenRaisesRuntimeError
       \<or> (\<exists>c. VideoCapture (cmd s) (backend s) = OpenReturns c
             \<and> (\<not> isOpened c \<or> fst (feed c (reads c)) = False \<or> snd (feed c (reads c)) = None))"
  shows "\<exists>why s'. start VideoCapture s = Raises (CameraFailedToStart (cmd s) (backend s) why) s'
           \<and> thread s' = None
           \<and> run (replicate n CaptureStep) s' = s'"
proof -
  have "\<exists>why s'. start VideoCapture s = Raises (CameraFailedToStart (cmd s) (backend s) why) s'
           \<and> thread s' = None"
    using assms
    by (auto simp: start_def isOpened_def capture_read_def split: open_result.splits prod.splits)
  then obtain why s' where
    r: "start VideoCapture s = Raises (CameraFailedToStart (cmd s) (backend s) why) s'"
    and t: "thread s' = None"
    by blast
  from t have "run (replicate n CaptureStep) s' = s'" by (rule run_capture_idle)
  with r t show ?thesis by blast
qed

theorem failed_start_starts_no_thread_witness:
  "thread (BaseVideoStream_init ''pipeline'' CAP_GSTREAMER :: nat base_video_stream) = None
   \<and> \<not> isOpened ((test_capture 3)\<lparr>is_opened := False\<rparr>)
   \<and> (\<exists>why s'. start (\<lambda>c b. OpenReturns ((test_capture 3)\<lparr>is_opened := False\<rparr>))
                   (BaseVideoStream_init ''pipeline'' CAP_GSTREAMER)
                 = Raises (CameraFailedToStart ''pipeline'' CAP_GSTREAMER why) s'
               \<and> thread s' = None)
   \<and> fst (feed (test_capture 0) (reads (test_capture 0))) = False
   \<and> (\<exists>why s'. start (test_backend 0) (BaseVideoStream_init ''pipeline'' CAP_GSTREAMER)
                 = Raises (CameraFailedToStart ''pipeline'' CAP_GSTREAMER why) s'
               \<and> thread s' = None)"
proof -
  let ?s = "BaseVideoStream_init ''pipeline'' CAP_GSTREAMER :: nat base_video_stream"
  have t: "thread ?s = None" and c: "cmd ?s = ''pipeline''" and b: "backend ?s = CAP_GSTREAMER"
    by (simp_all add: BaseVideoStream_init_def)
  have o: "\<not> isOpened ((test_capture 3)\<lparr>is_opened := False\<rparr>)"
    by (simp add: isOpened_def)
  have g: "fst (feed (test_capture 0) (reads (test_capture 0))) = False"
    by (simp add: test_capture_def)
  from failed_start_starts_no_thread [OF t,
      where VideoCapture = "\<lambda>c b. OpenReturns ((test_capture 3)\<lparr>is_opened := False\<rparr>)" and n = 0] o
  have 1: "\<exists>why s'. start (\<lambda>c b. OpenReturns ((test_capture 3)\<lparr>is_opened := False\<rparr>)) ?s
                 = Raises (CameraFailedToStart ''pipeline'' CAP_GSTREAMER why) s'
               \<and> thread s' = None"
    unfolding c b by blast
  from failed_start_starts_no_thread [OF t, where VideoCapture = "test_backend 0" and n = 0] g
  have 2: "\<exists>why s'. start (test_backend 0) ?s
                 = Raises (CameraFailedToStart ''pipeline'' CAP_GSTREAMER why) s'
               \<and> thread s' = None"
    unfolding c b test_backend_def by blast
  from t o g 1 2 show ?thesis by blast
qed

text \<open>
  Claim C10. A \<^verbatim>\<open>start\<close> that returns on a fresh stream has read the device exactly
  once, and that read delivered a frame; the frame is in no attribute afterwards: the
  queue is empty and \<^verbatim>\<open>frames_read\<close> is 0. The first frame that is queued and counted
  is the one the capture thread reads in its first iteration, which is the second read of
  the device.
\<close>

theorem first_frame_is_a_probe:
  assumes "fresh s" and "start VideoCapture s = Returns () s0"
    and "VideoCapture (cmd s) (backend s) = OpenReturns c0"
  shows "(\<exists>f. feed c0 (reads c0) = (True, Some f))
       \<and> stream s0 = Some (c0\<lparr>reads := Suc (reads c0)\<rparr>)
       \<and> frame_queue s0 = []
       \<and> frames_read s0 = 0
       \<and> thread s0 = Some AtStoppedCheck
       \<and> frame_queue (update_step (update_step s0))
           = (case feed c0 (Suc (reads c0)) of (True, Some g) \<Rightarrow> [g] | _ \<Rightarrow> [])
       \<and> frames_read (update_step (update_step s0))
           = (case feed c0 (Suc (reads c0)) of (True, Some g) \<Rightarrow> 1 | _ \<Rightarrow> 0)"
proof -
  from start_returns [OF assms(2)] assms(3) obtain f where
    o: "isOpened c0" and f: "feed c0 (reads c0) = (True, Some f)"
    and s0: "s0 = s\<lparr>stream := Some (c0\<lparr>reads := Suc (reads c0)\<rparr>), update_failure := Some False,
                     thread := Some AtStoppedCheck\<rparr>"
    by auto
  from fresh_fields [OF assms(1)] have
    fr: "frame_queue s = []" "frames_read s = 0" "\<not> stopped s" "queue_depth s = 2"
    by simp_all
  from o have nr: "\<not> released c0" by (simp add: isOpened_def)
  have 1: "update_step s0 = s0\<lparr>thread := Some AtStreamRead\<rparr>"
    using fr by (simp add: s0 update_step_check)
  have q: "frame_queue (update_step (update_step s0))
           = (case feed c0 (Suc (reads c0)) of (True, Some g) \<Rightarrow> [g] | _ \<Rightarrow> [])"
    unfolding 1 using fr nr
    by (auto simp: s0 update_step_def capture_read_def push_frame_def appendleft_def
        split: prod.splits option.splits bool.splits)
  have n: "frames_read (update_step (update_step s0))
           = (case feed c0 (Suc (reads c0)) of (True, Some g) \<Rightarrow> 1 | _ \<Rightarrow> 0)"
    unfolding 1 using fr nr
    by (auto simp: s0 update_step_def capture_read_def push_frame_def appendleft_def
        split: prod.splits option.splits bool.splits)
  from f fr q n show ?thesis by (simp add: s0)
qed

theorem first_frame_is_a_probe_witness:
  "fresh (BaseVideoStream_init [] CAP_GSTREAMER :: nat base_video_stream)
   \<and> start (test_backend 3) (BaseVideoStream_init [] CAP_GSTREAMER) = Returns () (test_stream 3)
   \<and> feed (test_capture 3) (reads (test_capture 3)) = (True, Some 0)
   \<and> stream (test_stream 3) = Some ((test_capture 3)\<lparr>reads := 1\<rparr>)
   \<and> frame_queue (test_stream 3) = []
   \<and> frames_read (test_stream 3) = 0
   \<and> frame_queue (update_step (update_step (test_stream 3))) = [1]
   \<and> frames_read (update_step (update_step (test_stream 3))) = 1"
proof -
  let ?s = "BaseVideoStream_init [] CAP_GSTREAMER :: nat base_video_stream"
  have h: "fresh ?s" "start (test_backend 3) ?s = Returns () (test_stream 3)"
    "test_backend 3 (cmd ?s) (backend ?s) = OpenReturns (test_capture 3)"
    by (simp_all add: fresh_base test_stream_def test_backend_def start_def isOpened_def
        capture_read_def test_capture_def)
  have g: "feed (test_capture 3) (reads (test_capture 3)) = (True, Some 0)"
    "feed (test_capture 3) (Suc (reads (test_capture 3))) = (True, Some 1)"
    by (simp_all add: test_capture_def)
  have r: "reads (test_capture 3) = 0"
    by (simp add: test_capture_def)
  from first_frame_is_a_probe [OF h] h(1,2) g show ?thesis by (simp add: r)
qed

subsection \<open>Stopping\<close>

lemma started_device_safe:
  assumes "start VideoCapture s = Returns () s0"
    and "VideoCapture (cmd s) (backend s) = OpenReturns c0"
  shows "device_safe (stale_reads c0) s0"
proof -
  from start_returns [OF assms(1)] assms(2) have
    o: "isOpened c0"
    and s0: "s0 = s\<lparr>stream := Some (c0\<lparr>reads := Suc (reads c0)\<rparr>), update_failure := Some False,
                     thread := Some AtStoppedCheck\<rparr>"
    by auto
  from o show ?thesis by (simp add: s0 device_safe_def isOpened_def)
qed

text \<open>
  The join is what keeps the read off a released device: a release while the thread is
  at its read is followed by a read of the released device.
\<close>

lemma release_without_join_reads_released_device:
  assumes "thread s = Some AtStreamRead" and "stream s = Some c"
  shows "stream (update_step (s\<lparr>stream := Some (release c)\<rparr>))
           = Some ((release c)\<lparr>stale_reads := Suc (stale_reads c)\<rparr>)"
  using assms by (simp add: update_step_def capture_read_def release_def)

text \<open>
  Claim C6. Take a stream that had no capture thread and was started, and any run after
  that. A \<^verbatim>\<open>stop\<close> at the end of the run returns: the join it makes after setting the
  stop flag ends with the capture thread returned, and the device is released in the
  state the join ends in. During the run the device is released only if the thread has
  returned, and the number of reads issued on the released device never moves from what
  it was when the backend handed the device over.
\<close>

theorem stop_joins_before_release:
  assumes "thread s = None" and "start VideoCapture s = Returns () s0"
    and "VideoCapture (cmd s) (backend s) = OpenReturns c0"
  shows "\<exists>c j cj. stream (run acts s0) = Some c \<and> stale_reads c = stale_reads c0
           \<and> (if released c then thread (run acts s0) = Some ThreadReturned
               else thread (run acts s0) \<noteq> None)
           \<and> join ((run acts s0)\<lparr>stopped := True\<rparr>) = Some j
           \<and> thread j = Some ThreadReturned
           \<and> stream j = Some cj \<and> stale_reads cj = stale_reads c0
           \<and> stop (run acts s0) = Some (Returns () (j\<lparr>stream := Some (release cj)\<rparr>))"
proof -
  have "device_safe (stale_reads c0) s0"
    using assms(2,3) by (rule started_device_safe)
  then have safe: "device_safe (stale_reads c0) (run acts s0)"
    by (rule device_safe_run)
  then obtain c where c: "stream (run acts s0) = Some c" "stale_reads c = stale_reads c0"
    "if released c then thread (run acts s0) = Some ThreadReturned
     else thread (run acts s0) \<noteq> None"
    by (auto simp: device_safe_def split: option.splits)
  from device_safe_stop [OF safe] obtain j cj where
    "join ((run acts s0)\<lparr>stopped := True\<rparr>) = Some j" "stream j = Some cj"
    "thread j = Some ThreadReturned" "stale_reads cj = stale_reads c0"
    "stop (run acts s0) = Some (Returns () (j\<lparr>stream := Some (release cj)\<rparr>))"
    by blast
  with c show ?thesis by blast
qed

lemma run_test_stream_3_stop:
  "run [CaptureStep, CaptureStep, CallStop, CaptureStep, CaptureStep] (test_stream 3)
     = (BaseVideoStream_init [] CAP_GSTREAMER)
         \<lparr>stream := Some ((test_capture 3)\<lparr>reads := 2, released := True\<rparr>),
           update_failure := Some False, thread := Some ThreadReturned,
           frames_read := 1, frame_queue := [1], stopped := True\<rparr>"
  by (simp add: run_def after_stop test_stream_eq BaseVideoStream_init_def update_step_def
      capture_read_def test_capture_def push_frame_def appendleft_def release_def)

theorem stop_joins_before_release_witness:
  "thread (BaseVideoStream_init [] CAP_GSTREAMER :: nat base_video_stream) = None
   \<and> start (test_backend 3) (BaseVideoStream_init [] CAP_GSTREAMER) = Returns () (test_stream 3)
   \<and> (\<exists>c. stream (run [CaptureStep, CaptureStep, CallStop, CaptureStep, CaptureStep] (test_stream 3))
              = Some c
          \<and> released c \<and> stale_reads c = 0 \<and> reads c = 2)
   \<and> thread (run [CaptureStep, CaptureStep, CallStop, CaptureStep, CaptureStep] (test_stream 3))
        = Some ThreadReturned"
proof -
  let ?s = "BaseVideoStream_init [] CAP_GSTREAMER :: nat base_video_stream"
  have h: "thread ?s = None" "start (test_backend 3) ?s = Returns () (test_stream 3)"
    "test_backend 3 (cmd ?s) (backend ?s) = OpenReturns (test_capture 3)"
    by (simp_all add: test_stream_def test_backend_def start_def isOpened_def
        capture_read_def test_capture_def BaseVideoStream_init_def)
  from stop_joins_before_release [OF h,
      where acts = "[CaptureStep, CaptureStep, CallStop, CaptureStep, CaptureStep]"] h(1,2)
  show ?thesis
    by (auto simp: run_test_stream_3_stop test_capture_def)
qed

subsection \<open>The counters\<close>

lemma counters_fold_count_event:
  "frames_read (fold count_event evs s) = frames_read s + int (length (filter is_frame_read evs))
   \<and> frames_displayed (fold count_event evs s)
       = frames_displayed s + int (length (filter (\<lambda>e. \<not> is_frame_read e) evs))
   \<and> timers (fold count_event evs s) = timers s"
proof (induction evs arbitrary: s)
  case Nil
  show ?case by simp
next
  case (Cons e evs)
  show ?case
    by (cases e) (simp_all add: Cons.IH push_frame_def count_displayed_def)
qed

text \<open>
  Claim C7. A tick copies \<^verbatim>\<open>frames_read\<close> and \<^verbatim>\<open>frames_displayed\<close> into
  \<^verbatim>\<open>last_frames_read\<close> and \<^verbatim>\<open>last_frames_displayed\<close> and sets both to 0. When both
  counters are 0 and then frames are read and displayed in any order, one tick leaves
  the number of frames read in \<^verbatim>\<open>last_frames_read\<close>, the number of frames displayed in
  \<^verbatim>\<open>last_frames_displayed\<close>, and 0 in both counters. A tick of the timer that
  \<^verbatim>\<open>start_counting_fps\<close> has started is that update.
\<close>

theorem tick_copies_and_resets:
  assumes "frames_read s = 0" and "frames_displayed s = 0"
  shows "last_frames_read (update_fps_stats u) = frames_read u
       \<and> last_frames_displayed (update_fps_stats u) = frames_displayed u
       \<and> frames_read (update_fps_stats u) = 0
       \<and> frames_displayed (update_fps_stats u) = 0
       \<and> last_frames_read (update_fps_stats (fold count_event evs s))
           = int (length (filter is_frame_read evs))
       \<and> last_frames_displayed (update_fps_stats (fold count_event evs s))
           = int (length (filter (\<lambda>e. \<not> is_frame_read e) evs))
       \<and> frames_read (update_fps_stats (fold count_event evs s)) = 0
       \<and> frames_displayed (update_fps_stats (fold count_event evs s)) = 0
       \<and> timer_tick (length (timers s)) (fold count_event evs (state_of (start_counting_fps s)))
           = update_fps_stats (fold count_event evs (state_of (start_counting_fps s)))"
proof -
  have t: "timers (fold count_event evs (state_of (start_counting_fps s)))
             = timers s @ [TimerWaiting]"
    by (simp add: counters_fold_count_event start_counting_fps_def)
  have tick: "timer_tick (length (timers s)) (fold count_event evs (state_of (start_counting_fps s)))
           = update_fps_stats (fold count_event evs (state_of (start_counting_fps s)))"
    by (simp add: timer_tick_def t)
  have "last_frames_read (update_fps_stats (fold count_event evs s))
           = int (length (filter is_frame_read evs))
       \<and> last_frames_displayed (update_fps_stats (fold count_event evs s))
           = int (length (filter (\<lambda>e. \<not> is_frame_read e) evs))
       \<and> frames_read (update_fps_stats (fold count_event evs s)) = 0
       \<and> frames_displayed (update_fps_stats (fold count_event evs s)) = 0"
    using assms by (simp add: update_fps_stats_def counters_fold_count_event)
  with tick show ?thesis by (simp add: update_fps_stats_def)
qed

theorem tick_copies_and_resets_witness:
  "frames_read (test_stream 9) = 0 \<and> frames_displayed (test_stream 9) = 0
   \<and> last_frames_read (update_fps_stats (fold count_event
        [FrameRead 1, FrameDisplayed, FrameRead 2, FrameRead 3, FrameDisplayed] (test_stream 9))) = 3
   \<and> last_frames_displayed (update_fps_stats (fold count_event
        [FrameRead 1, FrameDisplayed, FrameRead 2, FrameRead 3, FrameDisplayed] (test_stream 9))) = 2
   \<and> frames_read (update_fps_stats (fold count_event
        [FrameRead 1, FrameDisplayed, FrameRead 2, FrameRead 3, FrameDisplayed] (test_stream 9))) = 0
   \<and> frames_displayed (update_fps_stats (fold count_event
        [FrameRead 1, FrameDisplayed, FrameRead 2, FrameRead 3, FrameDisplayed] (test_stream 9))) = 0"
proof -
  have h: "frames_read (test_stream 9) = 0" "frames_displayed (test_stream 9) = 0"
    by (simp_all add: test_stream_eq BaseVideoStream_init_def)
  from tick_copies_and_resets [OF h,
      where evs = "[FrameRead 1, FrameDisplayed, FrameRead 2, FrameRead 3, FrameDisplayed]"
        and u = "test_stream 9"] h
  show ?thesis by simp
qed

subsection \<open>The failure event and the queue\<close>

lemma read_waits:
  "\<forall>k<n. read_pass ((env ^^ k) s) = None \<Longrightarrow> read env s = read env ((env ^^ n) s)"
proof (induction n arbitrary: s)
  case 0
  show ?case by simp
next
  case (Suc n)
  from Suc.prems have "read_pass ((env ^^ 0) s) = None" by blast
  then have first: "read env s = read env (env s)" by (simp add: read_again)
  have "\<forall>k<n. read_pass ((env ^^ k) (env s)) = None"
  proof (intro allI impI)
    fix k assume "k < n"
    with Suc.prems have "read_pass ((env ^^ Suc k) s) = None" by auto
    then show "read_pass ((env ^^ k) (env s)) = None" by (simp add: funpow_swap1)
  qed
  from Suc.IH [OF this] have "read env (env s) = read env ((env ^^ n) (env s))" .
  with first show ?case by (simp add: funpow_swap1)
qed

text \<open>
  Claim C9. Let \<^verbatim>\<open>read\<close> go round its loop \<open>n\<close> times without a result, the other
  threads doing \<open>env\<close> between two passes, and let the failure event be set at the next
  pass. Then that pass raises \<^verbatim>\<open>CameraConnectionLost\<close> and so does the call, with the
  object as that pass found it, whatever the queue holds: a frame in the queue is not
  popped. After any later run every \<^verbatim>\<open>read\<close> raises \<^verbatim>\<open>CameraConnectionLost\<close>
  again, so the frames are never delivered.
\<close>

theorem failure_precedes_frames:
  assumes "\<forall>k<n. read_pass ((env ^^ k) s) = None"
    and "update_failure ((env ^^ n) s) = Some True"
  shows "read_pass ((env ^^ n) s) = Some (Raises CameraConnectionLost ((env ^^ n) s))
       \<and> read env s = Some (Raises CameraConnectionLost ((env ^^ n) s))
       \<and> read env' (run acts ((env ^^ n) s))
           = Some (Raises CameraConnectionLost (run acts ((env ^^ n) s)))"
proof -
  let ?t = "(env ^^ n) s"
  have p: "read_pass ?t = Some (Raises CameraConnectionLost ?t)"
    using assms(2) by (rule read_pass_failed)
  then have "read env ?t = Some (Raises CameraConnectionLost ?t)"
    by (rule read_decided)
  then have r: "read env s = Some (Raises CameraConnectionLost ?t)"
    using read_waits [OF assms(1)] by simp
  have "update_failure (run acts ?t) = Some True"
    using assms(2) by (rule failure_run)
  then have "read env' (run acts ?t) = Some (Raises CameraConnectionLost (run acts ?t))"
    by (intro read_decided read_pass_failed)
  with p r show ?thesis by simp
qed

lemma test_stream_1_steps:
  "read_pass (test_stream 1) = None"
  "read_pass (update_step (test_stream 1)) = None"
  "update_failure (update_step (update_step (test_stream 1))) = Some True"
  by (simp_all add: test_stream_eq BaseVideoStream_init_def update_step_def read_pass_def
      capture_read_def test_capture_def)

theorem failure_precedes_frames_witness:
  "frame_queue (update_step (update_step (update_step (update_step (test_stream 2))))) = [1]
   \<and> update_failure (update_step (update_step (update_step (update_step (test_stream 2)))))
        = Some True
   \<and> read update_step (update_step (update_step (update_step (update_step (test_stream 2)))))
        = Some (Raises CameraConnectionLost
            (update_step (update_step (update_step (update_step (test_stream 2))))))
   \<and> read_pass (test_stream 1) = None
   \<and> read_pass (update_step (test_stream 1)) = None
   \<and> read update_step (test_stream 1)
        = Some (Raises CameraConnectionLost (update_step (update_step (test_stream 1))))"
proof -
  let ?t = "update_step (update_step (update_step (update_step (test_stream 2))))"
  have q: "frame_queue ?t = [1]" and f: "update_failure ?t = Some True"
    by (simp_all add: test_stream_2_read)
  have "\<forall>k<0. read_pass ((update_step ^^ k) ?t) = None" by simp
  from failure_precedes_frames [OF this, where env' = id and acts = "[]"] f
  have 1: "read update_step ?t = Some (Raises CameraConnectionLost ?t)" by simp
  have w: "\<forall>k<2. read_pass ((update_step ^^ k) (test_stream 1)) = None"
    using test_stream_1_steps(1,2) by (auto simp: less_Suc_eq numeral_2_eq_2)
  have g: "update_failure ((update_step ^^ 2) (test_stream 1)) = Some True"
    using test_stream_1_steps(3) by (simp add: numeral_2_eq_2)
  from failure_precedes_frames [OF w g, where env' = id and acts = "[]"]
  have 2: "read update_step (test_stream 1)
        = Some (Raises CameraConnectionLost (update_step (update_step (test_stream 1))))"
    by (simp add: numeral_2_eq_2)
  from q f 1 2 test_stream_1_steps(1,2) show ?thesis by simp
qed

subsection \<open>The repeat timer\<close>

text \<open>
  Claim C8, as stated, fails: on a started stream a second \<^verbatim>\<open>start_counting_fps\<close>
  raises nothing. It returns with two timers waiting, the attribute referring to the
  second one.
\<close>

theorem second_start_counting_fps_returns:
  "raised (start_counting_fps (state_of (start_counting_fps (test_stream 3)))) = None
   \<and> timers (state_of (start_counting_fps (state_of (start_counting_fps (test_stream 3)))))
        = [TimerWaiting, TimerWaiting]
   \<and> fps_timer (state_of (start_counting_fps (state_of (start_counting_fps (test_stream 3)))))
        = Some 1"
  by (simp add: start_counting_fps_def test_stream_eq BaseVideoStream_init_def)

text \<open>
  Claim C8, amended. \<^verbatim>\<open>release_fps_stats\<close> on a stream whose \<^verbatim>\<open>fps_timer\<close> is still
  \<^verbatim>\<open>None\<close> raises \<^verbatim>\<open>AttributeError\<close> to the caller and leaves the stream as it was.
  A second \<^verbatim>\<open>start_counting_fps\<close> is not reported: it returns, having created and
  started a second timer; the first one is still waiting and \<^verbatim>\<open>fps_timer\<close> refers to
  the second.
\<close>

theorem stats_collector_misuse:
  assumes "fps_timer s = None"
  shows "release_fps_stats s = Raises AttributeError s
       \<and> start_counting_fps (state_of (start_counting_fps s))
           = Returns () (s\<lparr>fps_timer := Some (Suc (length (timers s))),
                            timers := timers s @ [TimerWaiting, TimerWaiting]\<rparr>)"
  using assms by (simp add: release_fps_stats_def start_counting_fps_def)

theorem stats_collector_misuse_witness:
  "fps_timer (test_stream 3) = None
   \<and> release_fps_stats (test_stream 3) = Raises AttributeError (test_stream 3)
   \<and> raised (start_counting_fps (state_of (start_counting_fps (test_stream 3)))) = None"
proof -
  have h: "fps_timer (test_stream 3) = None"
    by (simp add: test_stream_eq BaseVideoStream_init_def)
  from stats_collector_misuse [OF h] h show ?thesis by simp
qed

end
